theory Spec2Isabelle
  imports Main "HOL-Library.List_Lexorder" "HOL-Library.Char_ord"
begin

section \<open>The memory model\<close>

text \<open>
  \<open>String<T>\<close> of \<open>lb4.cpp\<close> owns a heap array through a raw pointer, so the model keeps
  the free store explicit. The free store is the list of all arrays ever obtained from
  \<open>new T[n]\<close>, in allocation order: the position of an array in that list is its identity,
  and a deleted array stays in the list as \<open>Freed\<close>, so that an identity is never handed out
  twice. An element of a fresh array is indeterminate (\<open>None\<close>) until it is written.
  A pointer is null or names an array and an element offset in it.

  \<open>size_t\<close> is taken to have 64 bits, and its values are natural numbers. No array has
  more than \<open>2 ^ 63 - 1\<close> elements, so the sums \<open>length + other.length\<close> and
  \<open>length + 1\<close> of the source, which add the lengths of arrays that exist, stay below
  \<open>2 ^ 64\<close> and are plain sums. The product \<open>s.length * times\<close> of the repetition
  operator multiplies a length by a number that the caller chooses; it can leave the range
  of \<open>size_t\<close>, so the wrap-around modulo \<open>2 ^ 64\<close> is written out there. Allocation
  itself always succeeds: the free store is unbounded.
\<close>

datatype ptr = Null | Ptr nat nat

datatype 'a block = Freed | Live "'a option list"

type_synonym 'a heap = "'a block list"

text \<open>
  The two exceptions of the source, and \<open>Undefined\<close> for an execution to which C++
  gives no meaning: an access outside a live array, reading an indeterminate element,
  a relation between pointers into different arrays.
\<close>

datatype error = OutOfRangeException nat | InvalidRangeException | Undefined

definition and_then :: "error + 'a \<Rightarrow> ('a \<Rightarrow> error + 'b) \<Rightarrow> error + 'b" where
  "and_then m f = (case m of Inl e \<Rightarrow> Inl e | Inr v \<Rightarrow> f v)"

definition block_at :: "'a heap \<Rightarrow> nat \<Rightarrow> 'a block" where
  "block_at h b = (if b < length h then h ! b else Freed)"

text \<open>\<open>new T[n]\<close>: a fresh array of \<open>n\<close> indeterminate elements; also for \<open>n = 0\<close> the
  pointer returned is not null.\<close>

definition new_array :: "nat \<Rightarrow> 'a heap \<Rightarrow> ptr \<times> 'a heap" where
  "new_array n h = (Ptr (length h) 0, h @ [Live (replicate n None)])"

text \<open>\<open>delete[] p\<close>: nothing for the null pointer, otherwise \<open>p\<close> must be the start of a
  live array.\<close>

definition delete_array :: "ptr \<Rightarrow> 'a heap \<Rightarrow> error + 'a heap" where
  "delete_array p h =
     (case p of
        Null \<Rightarrow> Inr h
      | Ptr b off \<Rightarrow>
          (case block_at h b of
             Freed \<Rightarrow> Inl Undefined
           | Live cs \<Rightarrow> if off = 0 then Inr (h[b := Freed]) else Inl Undefined))"

text \<open>Reading \<open>p[i]\<close> and the assignment \<open>p[i] = v\<close>.\<close>

definition read_elem :: "ptr \<Rightarrow> nat \<Rightarrow> 'a heap \<Rightarrow> error + 'a" where
  "read_elem p i h =
     (case p of
        Null \<Rightarrow> Inl Undefined
      | Ptr b off \<Rightarrow>
          (case block_at h b of
             Freed \<Rightarrow> Inl Undefined
           | Live cs \<Rightarrow>
               if off + i < length cs
               then (case cs ! (off + i) of None \<Rightarrow> Inl Undefined | Some v \<Rightarrow> Inr v)
               else Inl Undefined))"

definition write_elem :: "ptr \<Rightarrow> nat \<Rightarrow> 'a \<Rightarrow> 'a heap \<Rightarrow> error + 'a heap" where
  "write_elem p i v h =
     (case p of
        Null \<Rightarrow> Inl Undefined
      | Ptr b off \<Rightarrow>
          (case block_at h b of
             Freed \<Rightarrow> Inl Undefined
           | Live cs \<Rightarrow>
               if off + i < length cs
               then Inr (h[b := Live (cs[off + i := Some v])])
               else Inl Undefined))"

text \<open>Pointer arithmetic \<open>p + n\<close> stays inside the array or one past its end;
  \<open>nullptr + 0\<close> is the null pointer.\<close>

definition ptr_add :: "ptr \<Rightarrow> nat \<Rightarrow> 'a heap \<Rightarrow> error + ptr" where
  "ptr_add p n h =
     (case p of
        Null \<Rightarrow> if n = 0 then Inr Null else Inl Undefined
      | Ptr b off \<Rightarrow>
          (case block_at h b of
             Freed \<Rightarrow> Inl Undefined
           | Live cs \<Rightarrow> if off + n \<le> length cs then Inr (Ptr b (off + n)) else Inl Undefined))"

text \<open>The relation \<open>p > q\<close> and the distance \<open>q - p\<close> (taken when \<open>p \<le> q\<close>) of two
  pointers into the same array, or of two null pointers.\<close>

fun ptr_greater :: "ptr \<Rightarrow> ptr \<Rightarrow> error + bool" where
  "ptr_greater Null Null = Inr False"
| "ptr_greater (Ptr b i) (Ptr c j) = (if b = c then Inr (i > j) else Inl Undefined)"
| "ptr_greater _ _ = Inl Undefined"

fun ptr_diff :: "ptr \<Rightarrow> ptr \<Rightarrow> error + nat" where
  "ptr_diff Null Null = Inr 0"
| "ptr_diff (Ptr c j) (Ptr b i) = (if b = c \<and> i \<le> j then Inr (j - i) else Inl Undefined)"
| "ptr_diff _ _ = Inl Undefined"

text \<open>\<open>for (size_t i = i0; i < n; ++i) body\<close>, stopping at the first failure.\<close>

function for_loop :: "nat \<Rightarrow> nat \<Rightarrow> (nat \<Rightarrow> 's \<Rightarrow> error + 's) \<Rightarrow> 's \<Rightarrow> error + 's" where
  "for_loop i n body s =
     (if i < n
      then (case body i s of Inl e \<Rightarrow> Inl e | Inr s' \<Rightarrow> for_loop (Suc i) n body s')
      else Inr s)"
  by pat_completeness auto
termination
  by (relation "measure (\<lambda>(i, n, body, s). n - i)") auto

declare for_loop.simps [simp del]

section \<open>The class \<open>String<T>\<close>\<close>

record str =
  data :: ptr
  length_s :: nat

text \<open>\<open>copy_from(source, len)\<close> sets both fields of the object it is called on, so it
  returns the object's new value.\<close>

definition copy_from :: "ptr \<Rightarrow> nat \<Rightarrow> 'a heap \<Rightarrow> error + (str \<times> 'a heap)" where
  "copy_from source len h =
     (case new_array len h of (d, h1) \<Rightarrow>
        and_then
          (for_loop 0 len (\<lambda>i hh. and_then (read_elem source i hh) (\<lambda>v. write_elem d i v hh)) h1)
          (\<lambda>h2. Inr (\<lparr>data = d, length_s = len\<rparr>, h2)))"

text \<open>\<open>String()\<close>.\<close>

definition String_default :: str where
  "String_default = \<lparr>data = Null, length_s = 0\<rparr>"

text \<open>\<open>String(const String& other)\<close>.\<close>

definition String_copy :: "str \<Rightarrow> 'a heap \<Rightarrow> error + (str \<times> 'a heap)" where
  "String_copy other h = copy_from (data other) (length_s other) h"

text \<open>\<open>String(String&& other)\<close>: the new object and what is left of \<open>other\<close>.\<close>

definition String_move :: "str \<Rightarrow> str \<times> str" where
  "String_move other =
     (\<lparr>data = data other, length_s = length_s other\<rparr>, other\<lparr>data := Null, length_s := 0\<rparr>)"

text \<open>\<open>String(size_t count, const T& ch)\<close>.\<close>

definition String_fill :: "nat \<Rightarrow> 'a \<Rightarrow> 'a heap \<Rightarrow> error + (str \<times> 'a heap)" where
  "String_fill count ch h =
     (case new_array count h of (d, h1) \<Rightarrow>
        and_then (for_loop 0 count (\<lambda>i hh. write_elem d i ch hh) h1)
          (\<lambda>h2. Inr (\<lparr>data = d, length_s = count\<rparr>, h2)))"

text \<open>\<open>String(const T* begin, const T* end)\<close>.\<close>

definition String_range :: "ptr \<Rightarrow> ptr \<Rightarrow> 'a heap \<Rightarrow> error + (str \<times> 'a heap)" where
  "String_range begin_p end_p h =
     and_then (ptr_greater begin_p end_p)
       (\<lambda>g. if g then Inl InvalidRangeException
            else and_then (ptr_diff end_p begin_p) (\<lambda>len. copy_from begin_p len h))"

text \<open>\<open>~String()\<close>.\<close>

definition String_destroy :: "str \<Rightarrow> 'a heap \<Rightarrow> error + 'a heap" where
  "String_destroy s h = delete_array (data s) h"

text \<open>
  The assignment operators compare the addresses of their two operands, so they work on
  a store of \<open>String\<close> objects, \<open>objs\<close>, indexed by address: \<open>this\<close> and \<open>other\<close> are
  addresses, and they may be the same one.
\<close>

definition op_assign_copy ::
  "nat \<Rightarrow> nat \<Rightarrow> (nat \<Rightarrow> str) \<times> 'a heap \<Rightarrow> error + ((nat \<Rightarrow> str) \<times> 'a heap)" where
  "op_assign_copy this other st =
     (case st of (objs, h) \<Rightarrow>
        if this \<noteq> other
        then and_then (delete_array (data (objs this)) h)
               (\<lambda>h1. and_then (copy_from (data (objs other)) (length_s (objs other)) h1)
                  (\<lambda>(s, h2). Inr (objs(this := s), h2)))
        else Inr (objs, h))"

definition op_assign_move ::
  "nat \<Rightarrow> nat \<Rightarrow> (nat \<Rightarrow> str) \<times> 'a heap \<Rightarrow> error + ((nat \<Rightarrow> str) \<times> 'a heap)" where
  "op_assign_move this other st =
     (case st of (objs, h) \<Rightarrow>
        if this \<noteq> other
        then and_then (delete_array (data (objs this)) h)
               (\<lambda>h1.
                  let objs1 = objs(this := (objs this)\<lparr>data := data (objs other)\<rparr>);
                      objs2 = objs1(this := (objs1 this)\<lparr>length_s := length_s (objs1 other)\<rparr>);
                      objs3 = objs2(other := (objs2 other)\<lparr>data := Null\<rparr>);
                      objs4 = objs3(other := (objs3 other)\<lparr>length_s := 0\<rparr>)
                  in Inr (objs4, h1))
        else Inr (objs, h))"

definition size_s :: "str \<Rightarrow> nat" where
  "size_s s = length_s s"

definition empty_s :: "str \<Rightarrow> bool" where
  "empty_s s = (length_s s = 0)"

definition clear :: "str \<Rightarrow> 'a heap \<Rightarrow> error + (str \<times> 'a heap)" where
  "clear s h =
     and_then (delete_array (data s) h) (\<lambda>h1. Inr (s\<lparr>data := Null, length_s := 0\<rparr>, h1))"

text \<open>\<open>operator[]\<close>; its two overloads have the same body.\<close>

definition op_index :: "str \<Rightarrow> nat \<Rightarrow> 'a heap \<Rightarrow> error + 'a" where
  "op_index s index h =
     (if index \<ge> length_s s then Inl (OutOfRangeException index)
      else read_elem (data s) index h)"

definition substr :: "str \<Rightarrow> nat \<Rightarrow> nat \<Rightarrow> 'a heap \<Rightarrow> error + (str \<times> 'a heap)" where
  "substr s start len h =
     (if start > length_s s then Inl (OutOfRangeException start)
      else let actualLen = min len (length_s s - start)
           in and_then (ptr_add (data s) start h)
                (\<lambda>b. and_then (ptr_add b actualLen h) (\<lambda>e. String_range b e h)))"

text \<open>\<open>operator+(const String& other)\<close>.\<close>

definition op_plus :: "str \<Rightarrow> str \<Rightarrow> 'a heap \<Rightarrow> error + (str \<times> 'a heap)" where
  "op_plus s other h =
     (case new_array (length_s s + length_s other) h of (d, h1) \<Rightarrow>
        and_then
          (for_loop 0 (length_s s)
             (\<lambda>i hh. and_then (read_elem (data s) i hh) (\<lambda>v. write_elem d i v hh)) h1)
          (\<lambda>h2. and_then
             (for_loop 0 (length_s other)
                (\<lambda>i hh. and_then (read_elem (data other) i hh)
                           (\<lambda>v. write_elem d (length_s s + i) v hh)) h2)
             (\<lambda>h3. Inr (\<lparr>data = d, length_s = length_s s + length_s other\<rparr>, h3))))"

text \<open>
  The generic \<open>transformed\<close> (\<open>template <typename Trans>\<close>), which every call with a
  transformer of a concrete type selects. The second overload,
  \<open>transformed(const Transformer<T>&)\<close>, is not embedded: its body calls
  \<open>transformed<T>(lambda)\<close>, where the explicit template argument makes the parameter a
  \<open>const T&\<close>, to which no closure converts, so that overload has no instance and no
  behaviour.
\<close>

definition transformed :: "str \<Rightarrow> ('a \<Rightarrow> 'a) \<Rightarrow> 'a heap \<Rightarrow> error + (str \<times> 'a heap)" where
  "transformed s transformer h =
     (case new_array (length_s s) h of (d, h1) \<Rightarrow>
        and_then
          (for_loop 0 (length_s s)
             (\<lambda>i hh. and_then (read_elem (data s) i hh)
                        (\<lambda>v. write_elem d i (transformer v) hh)) h1)
          (\<lambda>h2. Inr (\<lparr>data = d, length_s = length_s s\<rparr>, h2)))"

section \<open>The free operators\<close>

text \<open>
  \<open>operator*(const String<T>& s, int times)\<close>. The product \<open>s.length * times\<close> and the
  index \<open>t * s.length + i\<close> are computed in \<open>size_t\<close>, modulo \<open>2 ^ 64\<close>; a positive
  \<open>int\<close> converts to \<open>size_t\<close> unchanged.
\<close>

definition op_times :: "str \<Rightarrow> int \<Rightarrow> 'a heap \<Rightarrow> error + (str \<times> 'a heap)" where
  "op_times s times_n h =
     (if times_n \<le> 0 then Inr (String_default, h)
      else
        (case new_array ((length_s s * nat times_n) mod 2 ^ 64) h of (d, h1) \<Rightarrow>
           and_then
             (for_loop 0 (nat times_n)
                (\<lambda>t hh. for_loop 0 (length_s s)
                   (\<lambda>i hh'. and_then (read_elem (data s) i hh')
                      (\<lambda>v. write_elem d ((t * length_s s + i) mod 2 ^ 64) v hh')) hh) h1)
             (\<lambda>h2. Inr (\<lparr>data = d, length_s = (length_s s * nat times_n) mod 2 ^ 64\<rparr>, h2))))"

text \<open>\<open>operator*(int times, const String<T>& s)\<close>.\<close>

definition op_times_left :: "int \<Rightarrow> str \<Rightarrow> 'a heap \<Rightarrow> error + (str \<times> 'a heap)" where
  "op_times_left times_n s h = op_times s times_n h"

text \<open>The loop of \<open>operator==\<close>, from index \<open>i\<close> on.\<close>

function eq_loop :: "str \<Rightarrow> str \<Rightarrow> nat \<Rightarrow> 'a heap \<Rightarrow> error + bool" where
  "eq_loop a b i h =
     (if i < length_s a
      then (case read_elem (data a) i h of
              Inl e \<Rightarrow> Inl e
            | Inr x \<Rightarrow>
                (case read_elem (data b) i h of
                   Inl e \<Rightarrow> Inl e
                 | Inr y \<Rightarrow> if x \<noteq> y then Inr False else eq_loop a b (Suc i) h))
      else Inr True)"
  by pat_completeness auto
termination
  by (relation "measure (\<lambda>(a, b, i, h). length_s a - i)") auto

declare eq_loop.simps [simp del]

definition op_eq :: "str \<Rightarrow> str \<Rightarrow> 'a heap \<Rightarrow> error + bool" where
  "op_eq a b h = (if length_s a \<noteq> length_s b then Inr False else eq_loop a b 0 h)"

definition op_neq :: "str \<Rightarrow> str \<Rightarrow> 'a heap \<Rightarrow> error + bool" where
  "op_neq a b h = and_then (op_eq a b h) (\<lambda>r. Inr (\<not> r))"

text \<open>The loop of \<open>operator<\<close>, from index \<open>i\<close> on, with the \<open>return\<close> that follows it.\<close>

function less_loop :: "str \<Rightarrow> str \<Rightarrow> nat \<Rightarrow> nat \<Rightarrow> ('a::linorder) heap \<Rightarrow> error + bool" where
  "less_loop a b min_len i h =
     (if i < min_len
      then (case read_elem (data a) i h of
              Inl e \<Rightarrow> Inl e
            | Inr x \<Rightarrow>
                (case read_elem (data b) i h of
                   Inl e \<Rightarrow> Inl e
                 | Inr y \<Rightarrow>
                     if x < y then Inr True
                     else if x > y then Inr False
                     else less_loop a b min_len (Suc i) h))
      else Inr (length_s a < length_s b))"
  by pat_completeness auto
termination
  by (relation "measure (\<lambda>(a, b, min_len, i, h). min_len - i)") auto

declare less_loop.simps [simp del]

definition op_less :: "str \<Rightarrow> str \<Rightarrow> ('a::linorder) heap \<Rightarrow> error + bool" where
  "op_less a b h = less_loop a b (min (length_s a) (length_s b)) 0 h"

definition op_greater :: "str \<Rightarrow> str \<Rightarrow> ('a::linorder) heap \<Rightarrow> error + bool" where
  "op_greater a b h = op_less b a h"

definition op_le :: "str \<Rightarrow> str \<Rightarrow> ('a::linorder) heap \<Rightarrow> error + bool" where
  "op_le a b h = and_then (op_greater a b h) (\<lambda>r. Inr (\<not> r))"

definition op_ge :: "str \<Rightarrow> str \<Rightarrow> ('a::linorder) heap \<Rightarrow> error + bool" where
  "op_ge a b h = and_then (op_less a b h) (\<lambda>r. Inr (\<not> r))"

section \<open>The class invariant\<close>

text \<open>
  \<open>holds h s xs\<close>: in the free store \<open>h\<close> the object \<open>s\<close> is a well-formed \<open>String\<close> with
  the elements \<open>xs\<close>. Its \<open>length\<close> is the number of elements, and its \<open>data\<close> is null
  (then it has no elements) or the start of a live array of exactly these elements.
\<close>

definition holds :: "'a heap \<Rightarrow> str \<Rightarrow> 'a list \<Rightarrow> bool" where
  "holds h s xs =
     (length_s s = length xs \<and>
      (case data s of
         Null \<Rightarrow> xs = []
       | Ptr b off \<Rightarrow> off = 0 \<and> block_at h b = Live (map Some xs)))"

section \<open>Example objects\<close>

text \<open>A free store with the one array \<open>abc\<close>, and the \<open>String<char>\<close> that owns it.\<close>

definition heap_abc :: "char heap" where
  "heap_abc = [Live (map Some ''abc'')]"

definition str_abc :: str where
  "str_abc = \<lparr>data = Ptr 0 0, length_s = 3\<rparr>"

text \<open>A free store with the two arrays \<open>ab\<close> and \<open>cd\<close>, and a store of objects in
  which the \<open>String\<close> at address 0 owns the first and the one at address 1 the second.\<close>

definition heap_ab_cd :: "char heap" where
  "heap_ab_cd = [Live (map Some ''ab''), Live (map Some ''cd'')]"

definition str_ab :: str where
  "str_ab = \<lparr>data = Ptr 0 0, length_s = 2\<rparr>"

definition str_cd :: str where
  "str_cd = \<lparr>data = Ptr 1 0, length_s = 2\<rparr>"

definition objs_ab_cd :: "nat \<Rightarrow> str" where
  "objs_ab_cd = (\<lambda>_. String_default)(0 := str_ab, 1 := str_cd)"

text \<open>A free store with the three arrays \<open>ab\<close>, \<open>abc\<close> and \<open>b\<close>, and their owners.\<close>

definition heap_lex :: "char heap" where
  "heap_lex = [Live (map Some ''ab''), Live (map Some ''abc''), Live (map Some ''b'')]"

definition lex_ab :: str where
  "lex_ab = \<lparr>data = Ptr 0 0, length_s = 2\<rparr>"

definition lex_abc :: str where
  "lex_abc = \<lparr>data = Ptr 1 0, length_s = 3\<rparr>"

definition lex_b :: str where
  "lex_b = \<lparr>data = Ptr 2 0, length_s = 1\<rparr>"

text \<open>A transformer: it turns the letter \<open>b\<close> into \<open>B\<close> and keeps every other character.\<close>

definition b_to_upper :: "char \<Rightarrow> char" where
  "b_to_upper c = (if c = CHR ''b'' then CHR ''B'' else c)"

text \<open>A free store with one array of \<open>2 ^ 34\<close> elements, and its owner.\<close>

definition heap_big :: "char heap" where
  "heap_big = [Live (replicate 17179869184 (Some (CHR ''x'')))]"

definition str_big :: str where
  "str_big = \<lparr>data = Ptr 0 0, length_s = 17179869184\<rparr>"

section \<open>Loops and arrays\<close>

lemma and_then_Inr [simp]: "and_then (Inr v) f = f v"
  by (simp add: and_then_def)

lemma and_then_Inl [simp]: "and_then (Inl e) f = Inl e"
  by (simp add: and_then_def)

lemma block_at_append_old [simp]: "b < length h \<Longrightarrow> block_at (h @ hs) b = block_at h b"
  by (simp add: block_at_def nth_append)

lemma block_at_append_new [simp]: "block_at (h @ [blk]) (length h) = blk"
  by (simp add: block_at_def)

lemma block_at_live_less: "block_at h b = Live cs \<Longrightarrow> b < length h"
  by (simp add: block_at_def split: if_splits)

lemma block_at_append_live: "block_at h b = Live cs \<Longrightarrow> block_at (h @ hs) b = Live cs"
  by (simp add: block_at_def nth_append split: if_splits)

lemma holds_append: "holds h s xs \<Longrightarrow> holds (h @ hs) s xs"
  by (auto simp: holds_def block_at_append_live split: ptr.splits)

lemma read_elem_live:
  "block_at h b = Live (map Some xs) \<Longrightarrow> off + i < length xs \<Longrightarrow>
   read_elem (Ptr b off) i h = Inr (xs ! (off + i))"
  by (simp add: read_elem_def)

lemma write_elem_new:
  "k < length cs \<Longrightarrow>
   write_elem (Ptr (length h) 0) k v (h @ [Live cs]) = Inr (h @ [Live (cs[k := Some v])])"
  by (simp add: write_elem_def)

lemma fill_step:
  "i < n \<Longrightarrow> length ys = i \<Longrightarrow>
   (pre @ ys @ replicate (n - i) None @ post)[length pre + i := c]
   = pre @ (ys @ [c]) @ replicate (n - Suc i) None @ post"
proof -
  assume "i < n" and len: "length ys = i"
  then obtain m where m: "n - i = Suc m" "n - Suc i = m"
    by (cases "n - i") auto
  show ?thesis
    by (simp add: m len list_update_append)
qed

lemma for_loop_fill:
  assumes body: "\<And>i cs. i < n \<Longrightarrow> length cs = length pre + n + length post \<Longrightarrow>
                   body i (h @ [Live cs]) = Inr (h @ [Live (cs[length pre + i := Some (g i)])])"
  shows "i \<le> n \<Longrightarrow>
         for_loop i n body (h @ [Live (pre @ map (\<lambda>j. Some (g j)) [0..<i] @ replicate (n - i) None @ post)])
         = Inr (h @ [Live (pre @ map (\<lambda>j. Some (g j)) [0..<n] @ post)])"
proof (induction "n - i" arbitrary: i)
  case 0
  then show ?case by (simp add: for_loop.simps)
next
  case (Suc d)
  then have lt: "i < n" by simp
  have step: "body i (h @ [Live (pre @ map (\<lambda>j. Some (g j)) [0..<i] @ replicate (n - i) None @ post)])
      = Inr (h @ [Live (pre @ map (\<lambda>j. Some (g j)) [0..<Suc i] @ replicate (n - Suc i) None @ post)])"
    using lt by (subst body) (simp_all add: fill_step)
  have "d = n - Suc i" using Suc.hyps(2) by simp
  from Suc.hyps(1)[OF this] lt
  have rest: "for_loop (Suc i) n body (h @ [Live (pre @ map (\<lambda>j. Some (g j)) [0..<Suc i] @ replicate (n - Suc i) None @ post)])
       = Inr (h @ [Live (pre @ map (\<lambda>j. Some (g j)) [0..<n] @ post)])"
    by simp
  show ?case
    by (subst for_loop.simps) (simp add: lt step rest del: upt_Suc)
qed


lemma map_nth_take_drop:
  "off + n \<le> length xs \<Longrightarrow> map (\<lambda>j. Some (f (xs ! (off + j)))) [0..<n] = map Some (map f (take n (drop off xs)))"
  by (rule nth_equalityI) simp_all

lemma copy_loop:
  fixes xs :: "'a list"
  assumes src: "block_at h b = Live (map Some xs)" and len: "off + n \<le> length xs"
  shows "for_loop 0 n
           (\<lambda>i hh. and_then (read_elem (Ptr b off) i hh)
                      (\<lambda>v. write_elem (Ptr (length h) 0) (length pre + i) (f v) hh))
           (h @ [Live (pre @ replicate n None @ post)])
         = Inr (h @ [Live (pre @ map Some (map f (take n (drop off xs))) @ post)])"
proof -
  have "for_loop 0 n
           (\<lambda>i hh. and_then (read_elem (Ptr b off) i hh)
                      (\<lambda>v. write_elem (Ptr (length h) 0) (length pre + i) (f v) hh))
           (h @ [Live (pre @ map (\<lambda>j. Some (f (xs ! (off + j)))) [0..<0] @ replicate (n - 0) None @ post)])
         = Inr (h @ [Live (pre @ map (\<lambda>j. Some (f (xs ! (off + j)))) [0..<n] @ post)])"
  proof (rule for_loop_fill)
    fix i and cs :: "'a option list"
    assume "i < n" and "length cs = length pre + n + length post"
    then show "and_then (read_elem (Ptr b off) i (h @ [Live cs]))
                 (\<lambda>v. write_elem (Ptr (length h) 0) (length pre + i) (f v) (h @ [Live cs]))
               = Inr (h @ [Live (cs[length pre + i := Some (f (xs ! (off + i)))])])"
      using len by (simp add: read_elem_live[OF block_at_append_live[OF src]] write_elem_new)
  qed simp
  then show ?thesis
    using len by (simp add: map_nth_take_drop)
qed

lemma copy_from_live:
  assumes "block_at h b = Live (map Some xs)" and "off + len \<le> length xs"
  shows "copy_from (Ptr b off) len h
         = Inr (\<lparr>data = Ptr (length h) 0, length_s = len\<rparr>,
                h @ [Live (map Some (take len (drop off xs)))])"
  using copy_loop[OF assms, where pre = "[]" and post = "[]" and f = "\<lambda>v. v"]
  by (simp add: copy_from_def new_array_def)

lemma copy_from_zero:
  "copy_from p 0 h = Inr (\<lparr>data = Ptr (length h) 0, length_s = 0\<rparr>, h @ [Live []])"
  by (simp add: copy_from_def new_array_def for_loop.simps)

lemma holds_new:
  "holds (h @ [Live (map Some xs)]) \<lparr>data = Ptr (length h) 0, length_s = length xs\<rparr> xs"
  by (simp add: holds_def)

lemma copy_from_holds:
  assumes "holds h s xs"
  shows "copy_from (data s) (length_s s) h
         = Inr (\<lparr>data = Ptr (length h) 0, length_s = length xs\<rparr>, h @ [Live (map Some xs)])"
proof (cases "data s")
  case Null
  with assms show ?thesis by (simp add: holds_def copy_from_zero)
next
  case (Ptr b off)
  with assms have "block_at h b = Live (map Some xs)" "off = 0" "length_s s = length xs"
    by (simp_all add: holds_def)
  then show ?thesis
    using copy_from_live[of h b xs 0 "length xs"] Ptr by simp
qed

lemma String_range_live:
  assumes "block_at h b = Live (map Some xs)" and "i \<le> j" and "j \<le> length xs"
  shows "String_range (Ptr b i) (Ptr b j) h
         = Inr (\<lparr>data = Ptr (length h) 0, length_s = j - i\<rparr>,
                h @ [Live (map Some (take (j - i) (drop i xs)))])"
  using assms copy_from_live[of h b xs i "j - i"] by (simp add: String_range_def)

lemma String_range_null:
  "String_range Null Null h = Inr (\<lparr>data = Ptr (length h) 0, length_s = 0\<rparr>, h @ [Live []])"
  by (simp add: String_range_def copy_from_zero)

lemma String_range_reversed:
  "j < i \<Longrightarrow> String_range (Ptr b i) (Ptr b j) h = Inl InvalidRangeException"
  by (simp add: String_range_def)

lemma op_index_holds:
  assumes "holds h s xs"
  shows "op_index s i h = (if i < length xs then Inr (xs ! i) else Inl (OutOfRangeException i))"
  using assms read_elem_live[of h _ xs 0 i]
  by (auto simp: op_index_def holds_def split: ptr.splits)

lemma substr_holds:
  assumes "holds h s xs" and "start \<le> length xs"
  shows "substr s start len h
         = Inr (\<lparr>data = Ptr (length h) 0, length_s = min len (length xs - start)\<rparr>,
                h @ [Live (map Some (take len (drop start xs)))])"
proof (cases "data s")
  case Null
  with assms show ?thesis
    by (simp add: holds_def substr_def ptr_add_def String_range_null)
next
  case (Ptr b off)
  with assms have blk: "block_at h b = Live (map Some xs)" and "off = 0" and "length_s s = length xs"
    by (simp_all add: holds_def)
  moreover have tk: "take (min len (length xs - start)) (drop start xs) = take len (drop start xs)"
    by (simp add: min_def)
  moreover have le: "start + min len (length xs - start) \<le> length xs"
    using assms(2) by (auto simp: min_def)
  ultimately show ?thesis
    using assms(2) Ptr String_range_live[OF blk _ le, of start]
    by (simp add: substr_def ptr_add_def Let_def)
qed

section \<open>Slicing\<close>

text \<open>
  C1. With \<open>start > size\<close>, \<open>substr\<close> throws \<open>OutOfRangeException\<close>. With
  \<open>start \<le> size\<close> it throws nothing and returns a string of \<open>min len (size - start)\<close>
  elements, the element at \<open>i\<close> being the receiver's element at \<open>start + i\<close>. The result
  owns a newly allocated array, which is not the receiver's, and the receiver keeps its
  elements. With \<open>start = size\<close> the result is empty whatever \<open>len\<close> is.
\<close>

theorem substr_spec:
  assumes "holds h a xs"
  shows "(start > size_s a \<longrightarrow> substr a start len h = Inl (OutOfRangeException start)) \<and>
         (start \<le> size_s a \<longrightarrow>
            (\<exists>r h'. substr a start len h = Inr (r, h') \<and>
               size_s r = min len (size_s a - start) \<and>
               (\<forall>i < size_s r. op_index r i h' = Inr (xs ! (start + i)) \<and>
                                op_index a (start + i) h = Inr (xs ! (start + i))) \<and>
               holds h' r (take len (drop start xs)) \<and>
               holds h' a xs \<and>
               h' = h @ [Live (map Some (take len (drop start xs)))] \<and>
               data r = Ptr (length h) 0 \<and> block_at h (length h) = Freed \<and>
               data r \<noteq> data a \<and>
               (start = size_s a \<longrightarrow> empty_s r)))"
proof -
  have n: "length_s a = length xs"
    using assms by (simp add: holds_def)
  have throws: "start > size_s a \<longrightarrow> substr a start len h = Inl (OutOfRangeException start)"
    by (simp add: substr_def size_s_def)
  have returns: "\<exists>r h'. substr a start len h = Inr (r, h') \<and>
               size_s r = min len (size_s a - start) \<and>
               (\<forall>i < size_s r. op_index r i h' = Inr (xs ! (start + i)) \<and>
                                op_index a (start + i) h = Inr (xs ! (start + i))) \<and>
               holds h' r (take len (drop start xs)) \<and>
               holds h' a xs \<and>
               h' = h @ [Live (map Some (take len (drop start xs)))] \<and>
               data r = Ptr (length h) 0 \<and> block_at h (length h) = Freed \<and>
               data r \<noteq> data a \<and>
               (start = size_s a \<longrightarrow> empty_s r)"
    if le: "start \<le> size_s a"
  proof -
    let ?ys = "take len (drop start xs)"
    let ?r = "\<lparr>data = Ptr (length h) 0, length_s = min len (length xs - start)\<rparr>"
    let ?h' = "h @ [Live (map Some ?ys)]"
    have le': "start \<le> length xs"
      using le n by (simp add: size_s_def)
    have run: "substr a start len h = Inr (?r, ?h')"
      using substr_holds[OF assms le'] .
    have len_ys: "length ?ys = min len (length xs - start)"
      by simp
    have r: "holds ?h' ?r ?ys"
      using holds_new[of h ?ys] by (simp only: len_ys)
    have elems: "\<forall>i < size_s ?r. op_index ?r i ?h' = Inr (xs ! (start + i)) \<and>
                                 op_index a (start + i) h = Inr (xs ! (start + i))"
      using le' by (auto simp: op_index_holds[OF r] op_index_holds[OF assms] size_s_def)
    have other: "data ?r \<noteq> data a"
      using assms by (auto simp: holds_def block_at_def split: ptr.splits)
    show ?thesis
      using run r elems other holds_append[OF assms, of "[Live (map Some ?ys)]"] n
      by (simp add: size_s_def empty_s_def block_at_def)
  qed
  show ?thesis
    using throws returns by blast
qed

theorem substr_spec_witness:
  "holds heap_abc str_abc ''abc'' \<and>
   substr str_abc 1 2 heap_abc
     = Inr (\<lparr>data = Ptr 1 0, length_s = 2\<rparr>, heap_abc @ [Live (map Some ''bc'')]) \<and>
   substr str_abc 3 7 heap_abc
     = Inr (\<lparr>data = Ptr 1 0, length_s = 0\<rparr>, heap_abc @ [Live []]) \<and>
   substr str_abc 4 0 (heap_abc :: char heap) = Inl (OutOfRangeException 4)"
proof -
  have h: "holds heap_abc str_abc ''abc''"
    by (simp add: holds_def heap_abc_def str_abc_def block_at_def)
  have a: "substr str_abc 1 2 heap_abc
     = Inr (\<lparr>data = Ptr 1 0, length_s = 2\<rparr>, heap_abc @ [Live (map Some ''bc'')])"
    using substr_spec[OF h, of 1 2]
    by (auto simp: size_s_def str_abc_def heap_abc_def holds_def block_at_def)
  have b: "substr str_abc 3 7 heap_abc
     = Inr (\<lparr>data = Ptr 1 0, length_s = 0\<rparr>, heap_abc @ [Live []])"
    using substr_spec[OF h, of 3 7]
    by (auto simp: size_s_def str_abc_def heap_abc_def holds_def block_at_def)
  have c: "substr str_abc 4 0 (heap_abc :: char heap) = Inl (OutOfRangeException 4)"
    using substr_spec[OF h, of 4 0] by (simp add: size_s_def str_abc_def)
  show ?thesis
    using h a b c by simp
qed

section \<open>Element access\<close>

text \<open>
  C3. \<open>operator[]\<close> throws exactly when \<open>i \<ge> size\<close>, and then it throws
  \<open>OutOfRangeException\<close>; when \<open>i < size\<close> it returns the element stored at
  position \<open>i\<close>.
\<close>

theorem op_index_spec:
  assumes "holds h a xs"
  shows "((\<exists>e. op_index a i h = Inl e) \<longleftrightarrow> i \<ge> size_s a) \<and>
         (op_index a i h = Inl (OutOfRangeException i) \<longleftrightarrow> i \<ge> size_s a) \<and>
         (i < size_s a \<longrightarrow> op_index a i h = Inr (xs ! i))"
proof -
  have "size_s a = length xs"
    using assms by (simp add: holds_def size_s_def)
  then show ?thesis
    by (simp add: op_index_holds[OF assms])
qed

theorem op_index_spec_witness:
  "holds heap_abc str_abc ''abc'' \<and>
   op_index str_abc 5 heap_abc = Inl (OutOfRangeException 5) \<and>
   op_index str_abc 3 heap_abc = Inl (OutOfRangeException 3) \<and>
   op_index str_abc 2 heap_abc = Inr (CHR ''c'')"
proof -
  have h: "holds heap_abc str_abc ''abc''"
    by (simp add: holds_def heap_abc_def str_abc_def block_at_def)
  show ?thesis
    using h op_index_spec[OF h, of 5] op_index_spec[OF h, of 3] op_index_spec[OF h, of 2]
    by (simp add: size_s_def str_abc_def)
qed

section \<open>Construction from a pointer range\<close>

text \<open>
  C4. For two pointers \<open>begin\<close> and \<open>end\<close> into one array (at the offsets \<open>i\<close> and
  \<open>j\<close>), the range constructor throws exactly when \<open>begin > end\<close>, and then it throws
  \<open>InvalidRangeException\<close>. With \<open>begin = end\<close> it builds an empty string, and
  otherwise one of \<open>end - begin\<close> elements, copied in order from the range. Two null
  pointers are an empty range.
\<close>

theorem String_range_spec:
  assumes "block_at h b = Live (map Some xs)" and "i \<le> length xs" and "j \<le> length xs"
  shows "(String_range (Ptr b i) (Ptr b j) h = Inl InvalidRangeException \<longleftrightarrow> i > j) \<and>
         ((\<exists>e. String_range (Ptr b i) (Ptr b j) h = Inl e) \<longleftrightarrow> i > j) \<and>
         (i \<le> j \<longrightarrow>
            (\<exists>r h'. String_range (Ptr b i) (Ptr b j) h = Inr (r, h') \<and>
               size_s r = j - i \<and>
               holds h' r (take (j - i) (drop i xs)) \<and>
               (\<forall>k < j - i. op_index r k h' = Inr (xs ! (i + k))) \<and>
               h' = h @ [Live (map Some (take (j - i) (drop i xs)))] \<and>
               data r = Ptr (length h) 0 \<and>
               (i = j \<longrightarrow> empty_s r))) \<and>
         (\<exists>r h'. String_range Null Null h = Inr (r, h') \<and> empty_s r)"
proof (cases "i \<le> j")
  case True
  let ?ys = "take (j - i) (drop i xs)"
  let ?r = "\<lparr>data = Ptr (length h) 0, length_s = j - i\<rparr>"
  let ?h' = "h @ [Live (map Some ?ys)]"
  have run: "String_range (Ptr b i) (Ptr b j) h = Inr (?r, ?h')"
    using String_range_live[OF assms(1) True assms(3)] .
  have len_ys: "length ?ys = j - i"
    using True assms(3) by simp
  have r: "holds ?h' ?r ?ys"
    using holds_new[of h ?ys] by (simp only: len_ys)
  have elems: "\<forall>k < j - i. op_index ?r k ?h' = Inr (xs ! (i + k))"
    using True assms(3) by (auto simp: op_index_holds[OF r])
  show ?thesis
    using True run r elems by (simp add: size_s_def empty_s_def String_range_null)
next
  case False
  then show ?thesis
    by (simp add: String_range_reversed String_range_null empty_s_def)
qed

theorem String_range_spec_witness:
  "block_at heap_abc 0 = Live (map Some ''abc'') \<and>
   String_range (Ptr 0 1) (Ptr 0 3) heap_abc
     = Inr (\<lparr>data = Ptr 1 0, length_s = 2\<rparr>, heap_abc @ [Live (map Some ''bc'')]) \<and>
   String_range (Ptr 0 2) (Ptr 0 2) heap_abc
     = Inr (\<lparr>data = Ptr 1 0, length_s = 0\<rparr>, heap_abc @ [Live []]) \<and>
   String_range (Ptr 0 2) (Ptr 0 1) heap_abc = Inl InvalidRangeException"
proof -
  have h: "block_at heap_abc 0 = Live (map Some ''abc'')"
    by (simp add: heap_abc_def block_at_def)
  have a: "String_range (Ptr 0 1) (Ptr 0 3) heap_abc
     = Inr (\<lparr>data = Ptr 1 0, length_s = 2\<rparr>, heap_abc @ [Live (map Some ''bc'')])"
    using String_range_spec[OF h, of 1 3]
    by (auto simp: size_s_def heap_abc_def holds_def block_at_def)
  have b: "String_range (Ptr 0 2) (Ptr 0 2) heap_abc
     = Inr (\<lparr>data = Ptr 1 0, length_s = 0\<rparr>, heap_abc @ [Live []])"
    using String_range_spec[OF h, of 2 2]
    by (auto simp: size_s_def heap_abc_def holds_def block_at_def)
  have c: "String_range (Ptr 0 2) (Ptr 0 1) heap_abc = Inl InvalidRangeException"
    using String_range_spec[OF h, of 2 1] by simp
  show ?thesis
    using h a b c by simp
qed

section \<open>Releasing and moving\<close>

lemma delete_array_holds:
  assumes "holds h s xs"
  shows "delete_array (data s) h
         = Inr (case data s of Null \<Rightarrow> h | Ptr b off \<Rightarrow> h[b := Freed])"
  using assms by (auto simp: holds_def delete_array_def split: ptr.splits)

lemma block_at_update_other: "c \<noteq> b \<Longrightarrow> block_at (h[b := blk]) c = block_at h c"
  by (simp add: block_at_def)

lemma holds_delete_other:
  assumes "holds h t ys" and "data t \<noteq> Ptr b 0"
  shows "holds (h[b := Freed]) t ys"
  using assms by (auto simp: holds_def block_at_update_other split: ptr.splits)

lemma holds_null: "holds h \<lparr>data = Null, length_s = 0\<rparr> []"
  by (simp add: holds_def)

lemma clear_holds:
  assumes "holds h s xs"
  shows "clear s h
         = Inr (s\<lparr>data := Null, length_s := 0\<rparr>,
                case data s of Null \<Rightarrow> h | Ptr b off \<Rightarrow> h[b := Freed])"
  by (simp add: clear_def delete_array_holds[OF assms])

lemma op_assign_move_holds:
  assumes "this \<noteq> other" and "holds h (objs this) zs"
  shows "op_assign_move this other (objs, h)
         = Inr (objs(this := (objs this)\<lparr>data := data (objs other), length_s := length_s (objs other)\<rparr>,
                     other := (objs other)\<lparr>data := Null, length_s := 0\<rparr>),
                case data (objs this) of Null \<Rightarrow> h | Ptr b off \<Rightarrow> h[b := Freed])"
  using assms(1) by (simp add: op_assign_move_def delete_array_holds[OF assms(2)] Let_def)

lemma holds_fields:
  "holds h s xs \<Longrightarrow> data t = data s \<Longrightarrow> length_s t = length_s s \<Longrightarrow> holds h t xs"
  by (simp add: holds_def)

lemma holds_after_release:
  assumes s_ok: "holds h s zs" and t_ok: "holds h t xs"
    and excl: "data s = data t \<longrightarrow> data t = Null"
  shows "holds (case data s of Null \<Rightarrow> h | Ptr b off \<Rightarrow> h[b := Freed]) t xs"
proof (cases "data s")
  case Null
  with t_ok show ?thesis by simp
next
  case (Ptr b off)
  with s_ok have "off = 0" by (simp add: holds_def)
  with Ptr excl have ne: "data t \<noteq> Ptr b 0" by auto
  from holds_delete_other[OF t_ok ne] Ptr show ?thesis by simp
qed
section \<open>The empty state\<close>

text \<open>
  C2, as the code has it. A string of length 0 has a null \<open>data\<close> pointer after default
  construction, after \<open>clear\<close>, and as the source of a move construction or of a move
  assignment to a different object. Fill construction with count 0 and the copy of an empty string give length
  0 too, but they allocate an array of no elements, and \<open>data\<close> points to it.
\<close>

theorem empty_state_spec:
  "data String_default = Null \<and> length_s String_default = 0 \<and>
   (holds h s xs \<longrightarrow>
      (\<exists>s' h'. clear s h = Inr (s', h') \<and> length_s s' = 0 \<and> data s' = Null)) \<and>
   length_s (snd (String_move s)) = 0 \<and> data (snd (String_move s)) = Null \<and>
   (this \<noteq> other \<and> holds h (objs this) zs \<longrightarrow>
      (\<exists>objs' h'. op_assign_move this other (objs, h) = Inr (objs', h') \<and>
         length_s (objs' other) = 0 \<and> data (objs' other) = Null)) \<and>
   String_fill 0 ch h = Inr (\<lparr>data = Ptr (length h) 0, length_s = 0\<rparr>, h @ [Live []]) \<and>
   (holds h e [] \<longrightarrow>
      String_copy e h = Inr (\<lparr>data = Ptr (length h) 0, length_s = 0\<rparr>, h @ [Live []]))"
proof -
  have dflt: "data String_default = Null \<and> length_s String_default = 0"
    by (simp add: String_default_def)
  have clr: "holds h s xs \<longrightarrow>
      (\<exists>s' h'. clear s h = Inr (s', h') \<and> length_s s' = 0 \<and> data s' = Null)"
    by (simp add: clear_holds)
  have mv: "length_s (snd (String_move s)) = 0 \<and> data (snd (String_move s)) = Null"
    by (simp add: String_move_def)
  have asg: "this \<noteq> other \<and> holds h (objs this) zs \<longrightarrow>
      (\<exists>objs' h'. op_assign_move this other (objs, h) = Inr (objs', h') \<and>
         length_s (objs' other) = 0 \<and> data (objs' other) = Null)"
    by (auto simp: op_assign_move_holds)
  have fill: "String_fill 0 ch h
      = Inr (\<lparr>data = Ptr (length h) 0, length_s = 0\<rparr>, h @ [Live []])"
    by (simp add: String_fill_def new_array_def for_loop.simps)
  have cpy: "holds h e [] \<longrightarrow>
      String_copy e h = Inr (\<lparr>data = Ptr (length h) 0, length_s = 0\<rparr>, h @ [Live []])"
    using copy_from_holds[of h e "[]"] by (simp add: String_copy_def)
  show ?thesis
    using dflt clr mv asg fill cpy by blast
qed

theorem empty_state_spec_witness:
  "holds heap_abc str_abc ''abc'' \<and>
   clear str_abc heap_abc = Inr (\<lparr>data = Null, length_s = 0\<rparr>, [Freed]) \<and>
   snd (String_move str_abc) = \<lparr>data = Null, length_s = 0\<rparr> \<and>
   holds heap_ab_cd (objs_ab_cd 0) ''ab'' \<and>
   map_sum id (\<lambda>st. fst st 1) (op_assign_move 0 1 (objs_ab_cd, heap_ab_cd))
     = Inr \<lparr>data = Null, length_s = 0\<rparr> \<and>
   holds [Live []] \<lparr>data = Ptr 0 0, length_s = 0\<rparr> ([] :: char list) \<and>
   String_copy \<lparr>data = Ptr 0 0, length_s = 0\<rparr> ([Live []] :: char heap)
     = Inr (\<lparr>data = Ptr 1 0, length_s = 0\<rparr>, [Live [], Live []])"
proof -
  have h1: "holds heap_abc str_abc ''abc''"
    by (simp add: holds_def heap_abc_def str_abc_def block_at_def)
  have h2: "holds heap_ab_cd (objs_ab_cd 0) ''ab''"
    by (simp add: holds_def heap_ab_cd_def objs_ab_cd_def str_ab_def block_at_def)
  have h3: "holds [Live []] \<lparr>data = Ptr 0 0, length_s = 0\<rparr> ([] :: char list)"
    by (simp add: holds_def block_at_def)
  have ne: "(0::nat) \<noteq> 1"
    by simp
  have a: "clear str_abc heap_abc = Inr (\<lparr>data = Null, length_s = 0\<rparr>, [Freed])"
    using empty_state_spec[where h = heap_abc and s = str_abc and xs = "''abc''" and this = 0
        and other = 1 and objs = objs_ab_cd and zs = "''ab''" and ch = "CHR ''x''" and e = str_abc] h1
    by (auto simp: clear_def delete_array_def str_abc_def heap_abc_def block_at_def)
  have b: "snd (String_move str_abc) = \<lparr>data = Null, length_s = 0\<rparr>"
    using empty_state_spec[where h = heap_abc and s = str_abc and xs = "''abc''" and this = 0
        and other = 1 and objs = objs_ab_cd and zs = "''ab''" and ch = "CHR ''x''" and e = str_abc]
    by (simp add: String_move_def)
  have c: "map_sum id (\<lambda>st. fst st 1) (op_assign_move 0 1 (objs_ab_cd, heap_ab_cd))
     = Inr \<lparr>data = Null, length_s = 0\<rparr>"
    using empty_state_spec[where h = heap_ab_cd and this = 0 and other = 1 and objs = objs_ab_cd
        and zs = "''ab''" and s = str_abc and xs = "''abc''" and ch = "CHR ''x''" and e = str_abc]
      h2 ne
    by auto
  have d: "String_copy \<lparr>data = Ptr 0 0, length_s = 0\<rparr> ([Live []] :: char heap)
     = Inr (\<lparr>data = Ptr 1 0, length_s = 0\<rparr>, [Live [], Live []])"
    using empty_state_spec[where h = "[Live []]" and s = str_abc and xs = "''abc''" and this = 0
        and other = 1 and objs = objs_ab_cd and zs = "''ab''" and ch = "CHR ''x''"
        and e = "\<lparr>data = Ptr 0 0, length_s = 0\<rparr>"] h3
    by simp
  show ?thesis
    using h1 h2 h3 a b c d by simp
qed

text \<open>
  C2 as the specification states it fails: filling with count 0 in the empty free store,
  and copying the default-constructed string there, both give a string of length 0 whose
  \<open>data\<close> points to the array 0, which is live.
\<close>

theorem empty_not_null_counterexample:
  "String_fill 0 (CHR ''x'') [] = Inr (\<lparr>data = Ptr 0 0, length_s = 0\<rparr>, [Live []]) \<and>
   String_copy String_default ([] :: char heap)
     = Inr (\<lparr>data = Ptr 0 0, length_s = 0\<rparr>, [Live []]) \<and>
   Ptr 0 0 \<noteq> Null \<and>
   block_at ([Live []] :: char heap) 0 = Live []"
  by (simp add: String_fill_def String_copy_def String_default_def copy_from_def
      new_array_def for_loop.simps block_at_def)

section \<open>Moves\<close>

text \<open>
  C9, as the code has it. Move construction from a string \<open>a\<close> leaves \<open>a\<close> empty and
  gives the new object the length and the elements that \<open>a\<close> had. So does move assignment
  from \<open>a\<close> to a different object (source and target at different addresses, each owning
  its own array): the target has the length and the elements that \<open>a\<close> had, and \<open>a\<close> is
  empty.
\<close>

theorem move_spec:
  assumes "holds h a xs"
  shows "holds h (fst (String_move a)) xs \<and>
         size_s (fst (String_move a)) = size_s a \<and>
         (\<forall>i < size_s a. op_index (fst (String_move a)) i h = op_index a i h) \<and>
         size_s (snd (String_move a)) = 0 \<and> empty_s (snd (String_move a)) \<and>
         holds h (snd (String_move a)) [] \<and>
         (this \<noteq> other \<and> objs other = a \<and> holds h (objs this) zs \<and>
          (data (objs this) = data a \<longrightarrow> data a = Null) \<longrightarrow>
            (\<exists>objs' h'. op_assign_move this other (objs, h) = Inr (objs', h') \<and>
               holds h' (objs' this) xs \<and>
               size_s (objs' this) = size_s a \<and>
               (\<forall>i < size_s a. op_index (objs' this) i h' = op_index a i h) \<and>
               size_s (objs' other) = 0 \<and> empty_s (objs' other) \<and>
               holds h' (objs' other) []))"
proof -
  have ctor_dst: "holds h (fst (String_move a)) xs"
    using assms by (simp add: String_move_def holds_def)
  have ctor: "holds h (fst (String_move a)) xs \<and>
         size_s (fst (String_move a)) = size_s a \<and>
         (\<forall>i < size_s a. op_index (fst (String_move a)) i h = op_index a i h) \<and>
         size_s (snd (String_move a)) = 0 \<and> empty_s (snd (String_move a)) \<and>
         holds h (snd (String_move a)) []"
    using ctor_dst
    by (simp add: op_index_holds[OF ctor_dst] op_index_holds[OF assms])
       (simp add: String_move_def size_s_def empty_s_def holds_def)
  have asg: "\<exists>objs' h'. op_assign_move this other (objs, h) = Inr (objs', h') \<and>
               holds h' (objs' this) xs \<and>
               size_s (objs' this) = size_s a \<and>
               (\<forall>i < size_s a. op_index (objs' this) i h' = op_index a i h) \<and>
               size_s (objs' other) = 0 \<and> empty_s (objs' other) \<and>
               holds h' (objs' other) []"
    if ne: "this \<noteq> other" and src: "objs other = a" and dst: "holds h (objs this) zs"
      and excl: "data (objs this) = data a \<longrightarrow> data a = Null"
  proof -
    let ?h' = "case data (objs this) of Null \<Rightarrow> h | Ptr b off \<Rightarrow> h[b := Freed]"
    let ?t = "(objs this)\<lparr>data := data (objs other), length_s := length_s (objs other)\<rparr>"
    let ?s = "(objs other)\<lparr>data := Null, length_s := 0\<rparr>"
    let ?objs' = "objs(this := ?t, other := ?s)"
    have run: "op_assign_move this other (objs, h) = Inr (?objs', ?h')"
      using ne dst by (rule op_assign_move_holds)
    have kept: "holds ?h' a xs"
      using holds_after_release[OF dst assms excl] .
    have t: "holds ?h' (?objs' this) xs"
      using ne src by (simp add: holds_fields[OF kept])
    have s: "holds ?h' (?objs' other) []"
      by (simp add: holds_def)
    have n: "size_s (?objs' this) = size_s a"
      using ne src by (simp add: size_s_def)
    have "op_index (?objs' this) i ?h' = op_index a i h" for i
      unfolding op_index_holds[OF t] op_index_holds[OF assms] by (rule refl)
    then have elems: "\<forall>i < size_s a. op_index (?objs' this) i ?h' = op_index a i h"
      by blast
    have e: "size_s (?objs' other) = 0 \<and> empty_s (?objs' other)"
      by (simp add: size_s_def empty_s_def)
    show ?thesis
      using run t s n elems e by blast
  qed
  show ?thesis
    using ctor asg by blast
qed

theorem move_spec_witness:
  "holds heap_ab_cd str_cd ''cd'' \<and>
   String_move str_cd = (\<lparr>data = Ptr 1 0, length_s = 2\<rparr>, \<lparr>data = Null, length_s = 0\<rparr>) \<and>
   holds heap_ab_cd (objs_ab_cd 0) ''ab'' \<and>
   op_assign_move 0 1 (objs_ab_cd, heap_ab_cd)
     = Inr (objs_ab_cd(0 := str_cd, 1 := \<lparr>data = Null, length_s = 0\<rparr>),
            [Freed, Live (map Some ''cd'')]) \<and>
   holds [Freed, Live (map Some ''cd'')] str_cd ''cd''"
proof -
  have h1: "holds heap_ab_cd str_cd ''cd''"
    by (simp add: holds_def heap_ab_cd_def str_cd_def block_at_def)
  have h2: "holds heap_ab_cd (objs_ab_cd 0) ''ab''"
    by (simp add: holds_def heap_ab_cd_def objs_ab_cd_def str_ab_def block_at_def)
  have h3: "holds [Freed, Live (map Some ''cd'')] str_cd ''cd''"
    by (simp add: holds_def str_cd_def block_at_def)
  have pre: "(0::nat) \<noteq> 1 \<and> objs_ab_cd 1 = str_cd \<and>
             (data (objs_ab_cd 0) = data str_cd \<longrightarrow> data str_cd = Null)"
    by (simp add: objs_ab_cd_def str_ab_def str_cd_def)
  have a: "String_move str_cd
      = (\<lparr>data = Ptr 1 0, length_s = 2\<rparr>, \<lparr>data = Null, length_s = 0\<rparr>)"
    using move_spec[OF h1, of 0 1 objs_ab_cd "''ab''"]
    by (simp add: String_move_def str_cd_def)
  have b: "op_assign_move 0 1 (objs_ab_cd, heap_ab_cd)
     = Inr (objs_ab_cd(0 := str_cd, 1 := \<lparr>data = Null, length_s = 0\<rparr>),
            [Freed, Live (map Some ''cd'')])"
    using move_spec[OF h1, of 0 1 objs_ab_cd "''ab''"] h2 pre
    by (auto simp: op_assign_move_def delete_array_def objs_ab_cd_def str_ab_def str_cd_def
        heap_ab_cd_def block_at_def Let_def)
  show ?thesis
    using h1 h2 h3 a b by simp
qed

text \<open>
  C9 as the specification states it, for every move assignment from \<open>a\<close>, fails when the
  target is \<open>a\<close> itself: the test \<open>this != &other\<close> skips the body, and the string
  \<open>cd\<close> at address 1, moved to itself, is not empty afterwards but still has its two
  elements.
\<close>

theorem self_move_counterexample:
  "holds heap_ab_cd (objs_ab_cd 1) ''cd'' \<and>
   op_assign_move 1 1 (objs_ab_cd, heap_ab_cd) = Inr (objs_ab_cd, heap_ab_cd) \<and>
   size_s (objs_ab_cd 1) = 2 \<and>
   \<not> empty_s (objs_ab_cd 1)"
  by (simp add: op_assign_move_def holds_def heap_ab_cd_def objs_ab_cd_def str_cd_def
      block_at_def size_s_def empty_s_def)

section \<open>Self-assignment\<close>

text \<open>
  C10. Copy assignment and move assignment with the same object as source and target
  change nothing: not the object (its length and its array), no other object, not the
  free store.
\<close>

theorem self_assign_spec:
  "op_assign_copy this this (objs, h) = Inr (objs, h) \<and>
   op_assign_move this this (objs, h) = Inr (objs, h) \<and>
   (holds h (objs this) xs \<longrightarrow>
      (\<exists>objs' h'. op_assign_copy this this (objs, h) = Inr (objs', h') \<and>
         holds h' (objs' this) xs \<and> size_s (objs' this) = size_s (objs this)) \<and>
      (\<exists>objs' h'. op_assign_move this this (objs, h) = Inr (objs', h') \<and>
         holds h' (objs' this) xs \<and> size_s (objs' this) = size_s (objs this)))"
  by (simp add: op_assign_copy_def op_assign_move_def)

theorem self_assign_spec_witness:
  "holds heap_ab_cd (objs_ab_cd 1) ''cd'' \<and>
   op_assign_copy 1 1 (objs_ab_cd, heap_ab_cd) = Inr (objs_ab_cd, heap_ab_cd) \<and>
   op_assign_move 1 1 (objs_ab_cd, heap_ab_cd) = Inr (objs_ab_cd, heap_ab_cd)"
proof -
  have h: "holds heap_ab_cd (objs_ab_cd 1) ''cd''"
    by (simp add: holds_def heap_ab_cd_def objs_ab_cd_def str_cd_def block_at_def)
  show ?thesis
    using h self_assign_spec[of 1 objs_ab_cd heap_ab_cd "''cd''"] by simp
qed

section \<open>Copying loops over a well-formed string\<close>

lemma read_elem_holds:
  assumes "holds h s xs" and "i < length xs"
  shows "read_elem (data s) i h = Inr (xs ! i)"
  using assms read_elem_live[of h _ xs 0 i]
  by (auto simp: holds_def split: ptr.splits)

lemma copy_loop_holds:
  fixes xs :: "'a list"
  assumes "holds h s xs"
  shows "for_loop 0 (length_s s)
           (\<lambda>i hh. and_then (read_elem (data s) i hh)
                      (\<lambda>v. write_elem (Ptr (length h) 0) (length pre + i) (f v) hh))
           (h @ [Live (pre @ replicate (length xs) None @ post)])
         = Inr (h @ [Live (pre @ map Some (map f xs) @ post)])"
proof (cases "data s")
  case Null
  with assms show ?thesis
    by (simp add: holds_def for_loop.simps)
next
  case (Ptr b off)
  with assms have blk: "block_at h b = Live (map Some xs)" and off: "off = 0"
    and n: "length_s s = length xs"
    by (simp_all add: holds_def)
  have "0 + length xs \<le> length xs"
    by simp
  from copy_loop[OF blk this, of pre f post] show ?thesis
    by (simp add: Ptr off n)
qed

lemma transformed_holds:
  assumes "holds h s xs"
  shows "transformed s f h
         = Inr (\<lparr>data = Ptr (length h) 0, length_s = length xs\<rparr>,
                h @ [Live (map Some (map f xs))])"
proof -
  have n: "length_s s = length xs"
    using assms by (simp add: holds_def)
  show ?thesis
    using copy_loop_holds[OF assms, of "[]" f "[]"]
    by (simp add: transformed_def new_array_def n)
qed

lemma op_plus_holds:
  assumes a: "holds h a xs" and b: "holds h b ys"
  shows "op_plus a b h
         = Inr (\<lparr>data = Ptr (length h) 0, length_s = length xs + length ys\<rparr>,
                h @ [Live (map Some (xs @ ys))])"
proof -
  have n: "length_s a = length xs" and m: "length_s b = length ys"
    using a b by (simp_all add: holds_def)
  have first: "for_loop 0 (length xs)
           (\<lambda>i hh. and_then (read_elem (data a) i hh)
                      (\<lambda>v. write_elem (Ptr (length h) 0) i v hh))
           (h @ [Live (replicate (length xs + length ys) None)])
         = Inr (h @ [Live (map Some xs @ replicate (length ys) None)])"
    using copy_loop_holds[OF a, of "[]" "\<lambda>v. v" "replicate (length ys) None"]
    by (simp add: replicate_add n)
  have second: "for_loop 0 (length ys)
           (\<lambda>i hh. and_then (read_elem (data b) i hh)
                      (\<lambda>v. write_elem (Ptr (length h) 0) (length xs + i) v hh))
           (h @ [Live (map Some xs @ replicate (length ys) None)])
         = Inr (h @ [Live (map Some xs @ map Some ys)])"
    using copy_loop_holds[OF b, of "map Some xs" "\<lambda>v. v" "[]"]
    by (simp add: m)
  show ?thesis
    by (simp add: op_plus_def new_array_def n m first second)
qed

section \<open>Comparison loops\<close>

lemma eq_loop_holds:
  assumes a: "holds h a xs" and b: "holds h b ys" and len: "length xs = length ys"
  shows "i \<le> length xs \<Longrightarrow> eq_loop a b i h = Inr (drop i xs = drop i ys)"
proof (induction "length xs - i" arbitrary: i)
  case 0
  then have "i = length xs" by simp
  moreover have "length_s a = length xs"
    using a by (simp add: holds_def)
  ultimately show ?case
    using len by (subst eq_loop.simps) simp
next
  case (Suc d)
  then have lt: "i < length xs" and lt': "i < length ys"
    using len by simp_all
  have n: "length_s a = length xs"
    using a by (simp add: holds_def)
  have rest: "eq_loop a b (Suc i) h = Inr (drop (Suc i) xs = drop (Suc i) ys)"
    using Suc.hyps(1)[of "Suc i"] Suc.hyps(2) lt by simp
  have split: "drop i xs = xs ! i # drop (Suc i) xs" "drop i ys = ys ! i # drop (Suc i) ys"
    using lt lt' by (simp_all add: Cons_nth_drop_Suc)
  show ?case
    by (subst eq_loop.simps)
       (simp add: n lt read_elem_holds[OF a lt] read_elem_holds[OF b lt'] rest split)
qed

lemma op_eq_holds:
  assumes "holds h a xs" and "holds h b ys"
  shows "op_eq a b h = Inr (xs = ys)"
proof (cases "length xs = length ys")
  case True
  from eq_loop_holds[OF assms True, of 0] assms True show ?thesis
    by (simp add: op_eq_def holds_def)
next
  case False
  with assms show ?thesis
    by (auto simp: op_eq_def holds_def)
qed

lemma less_loop_holds:
  fixes xs ys :: "'a::linorder list"
  assumes a: "holds h a xs" and b: "holds h b ys"
  shows "i \<le> min (length xs) (length ys) \<Longrightarrow>
         less_loop a b (min (length xs) (length ys)) i h = Inr (drop i xs < drop i ys)"
proof (induction "min (length xs) (length ys) - i" arbitrary: i)
  case 0
  then have i: "i = min (length xs) (length ys)" by simp
  have n: "length_s a = length xs" "length_s b = length ys"
    using a b by (simp_all add: holds_def)
  have "(drop i xs < drop i ys) = (length xs < length ys)"
  proof (cases "length xs \<le> length ys")
    case True
    with i have "drop i xs = []" by simp
    moreover have "(drop i ys = []) = (length ys \<le> length xs)"
      using i True by simp
    ultimately show ?thesis
      by (cases "drop i ys") auto
  next
    case False
    with i have "drop i ys = []" by simp
    with False show ?thesis by simp
  qed
  then show ?case
    using i by (subst less_loop.simps) (simp add: n)
next
  case (Suc d)
  from Suc.hyps(2) have lt'': "i < min (length xs) (length ys)"
    by arith
  then have lt: "i < length xs" and lt': "i < length ys"
    by simp_all
  have rest: "less_loop a b (min (length xs) (length ys)) (Suc i) h
              = Inr (drop (Suc i) xs < drop (Suc i) ys)"
    using Suc.hyps(1)[of "Suc i"] Suc.hyps(2) lt'' by simp
  have split: "drop i xs = xs ! i # drop (Suc i) xs" "drop i ys = ys ! i # drop (Suc i) ys"
    using lt lt' by (simp_all add: Cons_nth_drop_Suc)
  show ?case
    by (subst less_loop.simps)
       (auto simp: lt lt' read_elem_holds[OF a lt] read_elem_holds[OF b lt'] rest split)
qed

lemma op_less_holds:
  fixes xs ys :: "'a::linorder list"
  assumes "holds h a xs" and "holds h b ys"
  shows "op_less a b h = Inr (xs < ys)"
  using less_loop_holds[OF assms, of 0] assms
  by (simp add: op_less_def holds_def)

section \<open>The copying transformation\<close>

text \<open>
  C8. \<open>transformed\<close> returns a new string of the receiver's length whose element at
  every index \<open>i\<close> is the transformer applied to the receiver's element at \<open>i\<close>; the
  receiver keeps its length and its elements.
\<close>

theorem transformed_spec:
  assumes "holds h a xs"
  shows "\<exists>r h'. transformed a f h = Inr (r, h') \<and>
           size_s r = size_s a \<and>
           (\<forall>i < size_s a. op_index a i h = Inr (xs ! i) \<and>
                            op_index r i h' = Inr (f (xs ! i)) \<and>
                            op_index a i h' = Inr (xs ! i)) \<and>
           holds h' r (map f xs) \<and>
           holds h' a xs \<and>
           h' = h @ [Live (map Some (map f xs))] \<and>
           data r = Ptr (length h) 0"
proof -
  let ?ys = "map f xs"
  let ?r = "\<lparr>data = Ptr (length h) 0, length_s = length xs\<rparr>"
  let ?h' = "h @ [Live (map Some ?ys)]"
  have n: "size_s a = length xs"
    using assms by (simp add: holds_def size_s_def)
  have run: "transformed a f h = Inr (?r, ?h')"
    using transformed_holds[OF assms] .
  have r: "holds ?h' ?r ?ys"
    using holds_new[of h ?ys] by (simp add: add.assoc)
  have a: "holds ?h' a xs"
    using holds_append[OF assms] .
  have elems: "\<forall>i < size_s a. op_index a i h = Inr (xs ! i) \<and>
                            op_index ?r i ?h' = Inr (f (xs ! i)) \<and>
                            op_index a i ?h' = Inr (xs ! i)"
    using op_index_holds[OF r] op_index_holds[OF a] op_index_holds[OF assms]
    by (simp add: n)
  show ?thesis
    using run r a elems n by (simp add: size_s_def)
qed

theorem transformed_spec_witness:
  "holds heap_abc str_abc ''abc'' \<and>
   transformed str_abc b_to_upper heap_abc
     = Inr (\<lparr>data = Ptr 1 0, length_s = 3\<rparr>, heap_abc @ [Live (map Some ''aBc'')]) \<and>
   holds (heap_abc @ [Live (map Some ''aBc'')]) str_abc ''abc''"
proof -
  have h: "holds heap_abc str_abc ''abc''"
    by (simp add: holds_def heap_abc_def str_abc_def block_at_def)
  have a: "transformed str_abc b_to_upper heap_abc
     = Inr (\<lparr>data = Ptr 1 0, length_s = 3\<rparr>, heap_abc @ [Live (map Some ''aBc'')])"
    using transformed_spec[OF h, of b_to_upper]
    by (auto simp: size_s_def str_abc_def heap_abc_def b_to_upper_def)
  have b: "holds (heap_abc @ [Live (map Some ''aBc'')]) str_abc ''abc''"
    using transformed_spec[OF h, of b_to_upper]
    by (auto simp: b_to_upper_def)
  show ?thesis
    using h a b by simp
qed

section \<open>Concatenation\<close>

text \<open>
  C7. \<open>operator+\<close> never fails; its result has \<open>a.size() + b.size()\<close> elements, those of
  \<open>a\<close> followed by those of \<open>b\<close>. It is associative under \<open>operator==\<close>, and an empty
  string is a right identity under \<open>operator==\<close>.
\<close>

theorem op_plus_spec:
  assumes "holds h a xs" and "holds h b ys" and "holds h c zs" and "holds h e []"
  shows "(\<exists>r h'. op_plus a b h = Inr (r, h') \<and>
            size_s r = size_s a + size_s b \<and>
            (\<forall>i < size_s a. op_index r i h' = op_index a i h) \<and>
            (\<forall>i < size_s b. op_index r (size_s a + i) h' = op_index b i h) \<and>
            holds h' r (xs @ ys) \<and> holds h' a xs \<and> holds h' b ys) \<and>
         and_then (op_plus a b h) (\<lambda>(ab, h1).
           and_then (op_plus ab c h1) (\<lambda>(l, h2).
             and_then (op_plus b c h2) (\<lambda>(bc, h3).
               and_then (op_plus a bc h3) (\<lambda>(r, h4). op_eq l r h4)))) = Inr True \<and>
         and_then (op_plus a e h) (\<lambda>(r, h1). op_eq r a h1) = Inr True"
proof -
  have n: "size_s a = length xs" and m: "size_s b = length ys"
    using assms by (simp_all add: holds_def size_s_def)
  have concat: "\<exists>r h'. op_plus a b h = Inr (r, h') \<and>
            size_s r = size_s a + size_s b \<and>
            (\<forall>i < size_s a. op_index r i h' = op_index a i h) \<and>
            (\<forall>i < size_s b. op_index r (size_s a + i) h' = op_index b i h) \<and>
            holds h' r (xs @ ys) \<and> holds h' a xs \<and> holds h' b ys"
  proof -
    let ?r = "\<lparr>data = Ptr (length h) 0, length_s = length xs + length ys\<rparr>"
    let ?h' = "h @ [Live (map Some (xs @ ys))]"
    have run: "op_plus a b h = Inr (?r, ?h')"
      using op_plus_holds[OF assms(1,2)] .
    have r: "holds ?h' ?r (xs @ ys)"
      using holds_new[of h "xs @ ys"] by (simp add: add.assoc)
    have front: "\<forall>i < size_s a. op_index ?r i ?h' = op_index a i h"
      using op_index_holds[OF r] op_index_holds[OF assms(1)]
      by (simp add: n nth_append)
    have rear: "\<forall>i < size_s b. op_index ?r (size_s a + i) ?h' = op_index b i h"
      using op_index_holds[OF r] op_index_holds[OF assms(2)]
      by (simp add: n m nth_append)
    show ?thesis
      using run r front rear holds_append[OF assms(1)] holds_append[OF assms(2)] n m
      by (simp add: size_s_def)
  qed
  have assoc: "and_then (op_plus a b h) (\<lambda>(ab, h1).
           and_then (op_plus ab c h1) (\<lambda>(l, h2).
             and_then (op_plus b c h2) (\<lambda>(bc, h3).
               and_then (op_plus a bc h3) (\<lambda>(r, h4). op_eq l r h4)))) = Inr True"
  proof -
    let ?ab = "\<lparr>data = Ptr (length h) 0, length_s = length xs + length ys\<rparr>"
    let ?h1 = "h @ [Live (map Some (xs @ ys))]"
    let ?l = "\<lparr>data = Ptr (length ?h1) 0, length_s = length (xs @ ys) + length zs\<rparr>"
    let ?h2 = "?h1 @ [Live (map Some ((xs @ ys) @ zs))]"
    let ?bc = "\<lparr>data = Ptr (length ?h2) 0, length_s = length ys + length zs\<rparr>"
    let ?h3 = "?h2 @ [Live (map Some (ys @ zs))]"
    let ?r = "\<lparr>data = Ptr (length ?h3) 0, length_s = length xs + length (ys @ zs)\<rparr>"
    let ?h4 = "?h3 @ [Live (map Some (xs @ (ys @ zs)))]"
    have s1: "op_plus a b h = Inr (?ab, ?h1)"
      using op_plus_holds[OF assms(1,2)] .
    have ab1: "holds ?h1 ?ab (xs @ ys)"
      using holds_new[of h "xs @ ys"] by (simp add: add.assoc)
    have s2: "op_plus ?ab c ?h1 = Inr (?l, ?h2)"
      using op_plus_holds[OF ab1 holds_append[OF assms(3)]] .
    have l2: "holds ?h2 ?l ((xs @ ys) @ zs)"
      using holds_new[of ?h1 "(xs @ ys) @ zs"] by (simp add: add.assoc)
    have b2: "holds ?h2 b ys"
      by (rule holds_append[OF holds_append[OF assms(2)]])
    have c2: "holds ?h2 c zs"
      by (rule holds_append[OF holds_append[OF assms(3)]])
    have a2: "holds ?h2 a xs"
      by (rule holds_append[OF holds_append[OF assms(1)]])
    have s3: "op_plus b c ?h2 = Inr (?bc, ?h3)"
      using op_plus_holds[OF b2 c2] .
    have bc3: "holds ?h3 ?bc (ys @ zs)"
      using holds_new[of ?h2 "ys @ zs"] by (simp add: add.assoc)
    have s4: "op_plus a ?bc ?h3 = Inr (?r, ?h4)"
      using op_plus_holds[OF holds_append[OF a2] bc3] .
    have r4: "holds ?h4 ?r (xs @ (ys @ zs))"
      using holds_new[of ?h3 "xs @ (ys @ zs)"] by (simp add: add.assoc)
    have l4: "holds ?h4 ?l ((xs @ ys) @ zs)"
      by (rule holds_append[OF holds_append[OF l2]])
    have "op_eq ?l ?r ?h4 = Inr True"
      using op_eq_holds[OF l4 r4] by simp
    then show ?thesis
      by (simp only: s1 and_then_Inr prod.case s2 s3 s4)
  qed
  have ident: "and_then (op_plus a e h) (\<lambda>(r, h1). op_eq r a h1) = Inr True"
  proof -
    let ?r = "\<lparr>data = Ptr (length h) 0, length_s = length xs + length ([] :: 'a list)\<rparr>"
    let ?h1 = "h @ [Live (map Some (xs @ []))]"
    have s1: "op_plus a e h = Inr (?r, ?h1)"
      using op_plus_holds[OF assms(1,4)] .
    have r1: "holds ?h1 ?r (xs @ [])"
      using holds_new[of h "xs @ []"] by (simp add: add.assoc)
    have "op_eq ?r a ?h1 = Inr True"
      using op_eq_holds[OF r1 holds_append[OF assms(1)]] by simp
    then show ?thesis
      by (simp only: s1 and_then_Inr prod.case)
  qed
  show ?thesis
    using concat assoc ident by blast
qed

theorem op_plus_spec_witness:
  "holds heap_ab_cd str_ab ''ab'' \<and> holds heap_ab_cd str_cd ''cd'' \<and>
   holds heap_ab_cd String_default ([] :: char list) \<and>
   op_plus str_ab str_cd heap_ab_cd
     = Inr (\<lparr>data = Ptr 2 0, length_s = 4\<rparr>, heap_ab_cd @ [Live (map Some ''abcd'')]) \<and>
   and_then (op_plus str_ab String_default heap_ab_cd) (\<lambda>(r, h1). op_eq r str_ab h1)
     = Inr True"
proof -
  have h1: "holds heap_ab_cd str_ab ''ab''"
    by (simp add: holds_def heap_ab_cd_def str_ab_def block_at_def)
  have h2: "holds heap_ab_cd str_cd ''cd''"
    by (simp add: holds_def heap_ab_cd_def str_cd_def block_at_def)
  have h3: "holds heap_ab_cd String_default ([] :: char list)"
    by (simp add: holds_def String_default_def)
  note spec = op_plus_spec[OF h1 h2 h2 h3]
  have a: "op_plus str_ab str_cd heap_ab_cd
     = Inr (\<lparr>data = Ptr 2 0, length_s = 4\<rparr>, heap_ab_cd @ [Live (map Some ''abcd'')])"
    using spec op_plus_holds[OF h1 h2]
    by (simp add: heap_ab_cd_def)
  show ?thesis
    using h1 h2 h3 a spec by simp
qed

section \<open>Comparison\<close>

text \<open>
  C6. For a linearly ordered element type the comparison operators never fail, and
  \<open>operator<\<close> is transitive; \<open>a == b\<close> holds exactly when neither \<open>a < b\<close> nor
  \<open>b < a\<close>; and \<open>a > b\<close> is \<open>b < a\<close>, \<open>a <= b\<close> is the negation of \<open>a > b\<close>, \<open>a >= b\<close>
  is the negation of \<open>a < b\<close>.
\<close>

theorem comparison_spec:
  fixes xs ys zs :: "'a::linorder list"
  assumes "holds h a xs" and "holds h b ys" and "holds h c zs"
  shows "(\<exists>r. op_less a b h = Inr r) \<and> (\<exists>r. op_eq a b h = Inr r) \<and>
         (op_less a b h = Inr True \<and> op_less b c h = Inr True \<longrightarrow> op_less a c h = Inr True) \<and>
         (op_eq a b h = Inr True \<longleftrightarrow> op_less a b h = Inr False \<and> op_less b a h = Inr False) \<and>
         op_greater a b h = op_less b a h \<and>
         (\<exists>r. op_greater a b h = Inr r \<and> op_le a b h = Inr (\<not> r)) \<and>
         (\<exists>r. op_less a b h = Inr r \<and> op_ge a b h = Inr (\<not> r)) \<and>
         (op_le a b h = Inr True \<longleftrightarrow> op_greater a b h = Inr False) \<and>
         (op_ge a b h = Inr True \<longleftrightarrow> op_less a b h = Inr False)"
  by (auto simp: op_less_holds[OF assms(1,2)] op_less_holds[OF assms(2,1)]
      op_less_holds[OF assms(2,3)] op_less_holds[OF assms(1,3)] op_eq_holds[OF assms(1,2)]
      op_greater_def op_le_def op_ge_def)

theorem comparison_spec_witness:
  "holds heap_lex lex_ab ''ab'' \<and> holds heap_lex lex_abc ''abc'' \<and> holds heap_lex lex_b ''b'' \<and>
   op_less lex_ab lex_abc heap_lex = Inr True \<and>
   op_less lex_abc lex_b heap_lex = Inr True \<and>
   op_less lex_ab lex_b heap_lex = Inr True \<and>
   op_eq lex_ab lex_abc heap_lex = Inr False \<and>
   op_le lex_ab lex_abc heap_lex = Inr True \<and>
   op_ge lex_ab lex_abc heap_lex = Inr False"
proof -
  have h1: "holds heap_lex lex_ab ''ab''"
    by (simp add: holds_def heap_lex_def lex_ab_def block_at_def)
  have h2: "holds heap_lex lex_abc ''abc''"
    by (simp add: holds_def heap_lex_def lex_abc_def block_at_def)
  have h3: "holds heap_lex lex_b ''b''"
    by (simp add: holds_def heap_lex_def lex_b_def block_at_def)
  have l1: "op_less lex_ab lex_abc heap_lex = Inr True"
    using op_less_holds[OF h1 h2] by simp
  have l2: "op_less lex_abc lex_b heap_lex = Inr True"
    using op_less_holds[OF h2 h3] by simp
  have l3: "op_less lex_abc lex_ab heap_lex = Inr False"
    using op_less_holds[OF h2 h1] by simp
  show ?thesis
    using h1 h2 h3 l1 l2 l3 comparison_spec[OF h1 h2 h3]
    by (auto simp: op_greater_def)
qed

section \<open>Repetition\<close>

lemma concat_replicate_snoc: "concat (replicate t ys) @ ys = concat (replicate (Suc t) ys)"
  by (induction t) simp_all

lemma length_concat_replicate: "length (concat (replicate t ys)) = t * length ys"
  by (induction t) simp_all

lemma nth_concat_replicate:
  "k < t \<Longrightarrow> i < length ys \<Longrightarrow> concat (replicate t ys) ! (k * length ys + i) = ys ! i"
proof (induction k arbitrary: t)
  case 0
  then obtain t' where "t = Suc t'" by (cases t) auto
  with 0 show ?case by (simp add: nth_append)
next
  case (Suc k)
  then obtain t' where t: "t = Suc t'" by (cases t) auto
  with Suc.prems have "k < t'" by simp
  from Suc.IH[OF this Suc.prems(2)] t show ?case
    by (simp add: nth_append)
qed

lemma tile_loop:
  fixes xs :: "'a list"
  assumes s: "holds h s xs" and pre: "length pre = t * length xs"
    and fits: "t * length xs + length xs \<le> 2 ^ 64"
  shows "for_loop 0 (length xs)
           (\<lambda>i hh'. and_then (read_elem (data s) i hh')
              (\<lambda>v. write_elem (Ptr (length h) 0) ((t * length xs + i) mod 2 ^ 64) v hh'))
           (h @ [Live (pre @ replicate (length xs) None @ post)])
         = Inr (h @ [Live (pre @ map Some xs @ post)])"
proof -
  have "for_loop 0 (length xs)
           (\<lambda>i hh'. and_then (read_elem (data s) i hh')
              (\<lambda>v. write_elem (Ptr (length h) 0) ((t * length xs + i) mod 2 ^ 64) v hh'))
           (h @ [Live (pre @ map (\<lambda>j. Some (xs ! j)) [0..<0] @ replicate (length xs - 0) None @ post)])
         = Inr (h @ [Live (pre @ map (\<lambda>j. Some (xs ! j)) [0..<length xs] @ post)])"
  proof (rule for_loop_fill)
    fix i and cs :: "'a option list"
    assume i: "i < length xs" and cs: "length cs = length pre + length xs + length post"
    have small: "(t * length xs + i) mod 2 ^ 64 = length pre + i"
      using i fits pre by simp
    have rd: "read_elem (data s) i (h @ [Live cs]) = Inr (xs ! i)"
      using read_elem_holds[OF holds_append[OF s] i] .
    show "and_then (read_elem (data s) i (h @ [Live cs]))
            (\<lambda>v. write_elem (Ptr (length h) 0) ((t * length xs + i) mod 2 ^ 64) v (h @ [Live cs]))
          = Inr (h @ [Live (cs[length pre + i := Some (xs ! i)])])"
      using i cs small by (simp add: rd write_elem_new)
  qed simp
  moreover have "map (\<lambda>j. Some (xs ! j)) [0..<length xs] = map Some xs"
    by (rule nth_equalityI) simp_all
  ultimately show ?thesis
    by simp
qed

lemma tiles_loop:
  fixes xs :: "'a list"
  assumes s: "holds h s xs" and fits: "length xs * n \<le> 2 ^ 64"
  shows "t \<le> n \<Longrightarrow>
         for_loop t n
           (\<lambda>t hh. for_loop 0 (length xs)
              (\<lambda>i hh'. and_then (read_elem (data s) i hh')
                 (\<lambda>v. write_elem (Ptr (length h) 0) ((t * length xs + i) mod 2 ^ 64) v hh')) hh)
           (h @ [Live (concat (replicate t (map Some xs)) @ replicate ((n - t) * length xs) None)])
         = Inr (h @ [Live (concat (replicate n (map Some xs)))])"
proof (induction "n - t" arbitrary: t)
  case 0
  then show ?case
    by (subst for_loop.simps) simp
next
  case (Suc d)
  then have lt: "t < n" by simp
  let ?pre = "concat (replicate t (map Some xs))"
  let ?post = "replicate ((n - Suc t) * length xs) (None :: 'a option)"
  have cells: "replicate ((n - t) * length xs) (None :: 'a option)
               = replicate (length xs) None @ ?post"
  proof -
    from lt obtain m where m: "n - t = Suc m" "n - Suc t = m"
      by (cases "n - t") auto
    show ?thesis
      by (simp add: m replicate_add)
  qed
  have "Suc t * length xs \<le> n * length xs"
    using lt by (intro mult_le_mono1) simp
  then have fits': "t * length xs + length xs \<le> 2 ^ 64"
    using fits by (simp add: mult.commute)
  have tile: "for_loop 0 (length xs)
              (\<lambda>i hh'. and_then (read_elem (data s) i hh')
                 (\<lambda>v. write_elem (Ptr (length h) 0) ((t * length xs + i) mod 2 ^ 64) v hh'))
              (h @ [Live (?pre @ replicate (length xs) None @ ?post)])
        = Inr (h @ [Live (?pre @ map Some xs @ ?post)])"
    by (rule tile_loop[OF s _ fits']) (simp add: length_concat_replicate)
  have "d = n - Suc t"
    using Suc.hyps(2) by simp
  from Suc.hyps(1)[OF this] lt
  have rest: "for_loop (Suc t) n
           (\<lambda>t hh. for_loop 0 (length xs)
              (\<lambda>i hh'. and_then (read_elem (data s) i hh')
                 (\<lambda>v. write_elem (Ptr (length h) 0) ((t * length xs + i) mod 2 ^ 64) v hh')) hh)
           (h @ [Live (concat (replicate (Suc t) (map Some xs)) @ ?post)])
         = Inr (h @ [Live (concat (replicate n (map Some xs)))])"
    by simp
  have next_state: "?pre @ map Some xs @ ?post
                    = concat (replicate (Suc t) (map Some xs)) @ ?post"
    using concat_replicate_snoc[of t "map Some xs"] by simp
  show ?case
    by (subst for_loop.simps) (simp only: lt if_True cells tile sum.case next_state rest)
qed

lemma op_times_holds:
  fixes xs :: "'a list"
  assumes s: "holds h s xs" and pos: "0 < t" and fits: "length xs * nat t < 2 ^ 64"
  shows "op_times s t h
         = Inr (\<lparr>data = Ptr (length h) 0, length_s = length xs * nat t\<rparr>,
                h @ [Live (map Some (concat (replicate (nat t) xs)))])"
proof -
  have n: "length_s s = length xs"
    using s by (simp add: holds_def)
  have fits': "length xs * nat t \<le> 2 ^ 64"
    using fits by simp
  have "for_loop 0 (nat t)
           (\<lambda>t hh. for_loop 0 (length xs)
              (\<lambda>i hh'. and_then (read_elem (data s) i hh')
                 (\<lambda>v. write_elem (Ptr (length h) 0) ((t * length xs + i) mod 2 ^ 64) v hh')) hh)
           (h @ [Live (concat (replicate 0 (map Some xs)) @ replicate ((nat t - 0) * length xs) None)])
         = Inr (h @ [Live (concat (replicate (nat t) (map Some xs)))])"
    by (rule tiles_loop[OF s fits']) simp
  moreover have "concat (replicate (nat t) (map Some xs)) = map Some (concat (replicate (nat t) xs))"
    by (simp add: map_concat)
  ultimately show ?thesis
    using pos fits by (simp add: op_times_def new_array_def n mult.commute)
qed


text \<open>
  C5, as the code has it. With \<open>t \<le> 0\<close> the repetition is the empty string and no
  error. With \<open>t > 0\<close>, and the product \<open>a.size() * t\<close> within the range of \<open>size_t\<close>,
  it is a string of \<open>a.size() * t\<close> elements whose element at \<open>k * a.size() + i\<close> is the
  element of \<open>a\<close> at \<open>i\<close>, for every \<open>k < t\<close> and \<open>i < a.size()\<close>.
\<close>

theorem op_times_spec:
  assumes "holds h a xs"
  shows "(t \<le> 0 \<longrightarrow>
            op_times a t h = Inr (String_default, h) \<and> op_times_left t a h = Inr (String_default, h) \<and>
            size_s String_default = 0 \<and> empty_s String_default) \<and>
         (0 < t \<and> size_s a * nat t < 2 ^ 64 \<longrightarrow>
            (\<exists>r h'. op_times a t h = Inr (r, h') \<and> op_times_left t a h = Inr (r, h') \<and>
               size_s r = size_s a * nat t \<and>
               (\<forall>k < nat t. \<forall>i < size_s a.
                  op_index r (k * size_s a + i) h' = Inr (xs ! i) \<and>
                  op_index a i h = Inr (xs ! i)) \<and>
               holds h' r (concat (replicate (nat t) xs)) \<and>
               holds h' a xs \<and>
               h' = h @ [Live (map Some (concat (replicate (nat t) xs)))] \<and>
               data r = Ptr (length h) 0))"
proof -
  have n: "size_s a = length xs"
    using assms by (simp add: holds_def size_s_def)
  have none: "t \<le> 0 \<longrightarrow>
            op_times a t h = Inr (String_default, h) \<and> op_times_left t a h = Inr (String_default, h) \<and>
            size_s String_default = 0 \<and> empty_s String_default"
    by (simp add: op_times_def op_times_left_def String_default_def size_s_def empty_s_def)
  have some: "\<exists>r h'. op_times a t h = Inr (r, h') \<and> op_times_left t a h = Inr (r, h') \<and>
               size_s r = size_s a * nat t \<and>
               (\<forall>k < nat t. \<forall>i < size_s a.
                  op_index r (k * size_s a + i) h' = Inr (xs ! i) \<and>
                  op_index a i h = Inr (xs ! i)) \<and>
               holds h' r (concat (replicate (nat t) xs)) \<and>
               holds h' a xs \<and>
               h' = h @ [Live (map Some (concat (replicate (nat t) xs)))] \<and>
               data r = Ptr (length h) 0"
    if pos: "0 < t" and fits: "size_s a * nat t < 2 ^ 64"
  proof -
    let ?ys = "concat (replicate (nat t) xs)"
    let ?r = "\<lparr>data = Ptr (length h) 0, length_s = length xs * nat t\<rparr>"
    let ?h' = "h @ [Live (map Some ?ys)]"
    have fits': "length xs * nat t < 2 ^ 64"
      using fits n by simp
    have run: "op_times a t h = Inr (?r, ?h')"
      using op_times_holds[OF assms pos fits'] .
    have len: "length ?ys = length xs * nat t"
      by (simp add: length_concat_replicate mult.commute)
    have r: "holds ?h' ?r ?ys"
      using holds_new[of h ?ys] by (simp only: len)
    have inside: "k * length xs + i < length xs * nat t" if "k < nat t" and "i < length xs" for k i
    proof -
      have "k * length xs + i < Suc k * length xs"
        using that(2) by simp
      also have "\<dots> \<le> nat t * length xs"
        using that(1) by (intro mult_le_mono1) simp
      finally show ?thesis
        by (simp add: mult.commute)
    qed
    have elems: "\<forall>k < nat t. \<forall>i < size_s a.
                  op_index ?r (k * size_s a + i) ?h' = Inr (xs ! i) \<and>
                  op_index a i h = Inr (xs ! i)"
      using op_index_holds[OF r] op_index_holds[OF assms] inside
      by (simp add: n len nth_concat_replicate)
    show ?thesis
      using run r elems holds_append[OF assms, of "[Live (map Some ?ys)]"] n
      by (simp add: size_s_def op_times_left_def)
  qed
  show ?thesis
    using none some by blast
qed

theorem op_times_spec_witness:
  "holds heap_ab_cd str_ab ''ab'' \<and>
   op_times str_ab 3 heap_ab_cd
     = Inr (\<lparr>data = Ptr 2 0, length_s = 6\<rparr>, heap_ab_cd @ [Live (map Some ''ababab'')]) \<and>
   op_times str_ab 0 heap_ab_cd = Inr (String_default, heap_ab_cd) \<and>
   op_times str_ab (- 2) heap_ab_cd = Inr (String_default, heap_ab_cd)"
proof -
  have h: "holds heap_ab_cd str_ab ''ab''"
    by (simp add: holds_def heap_ab_cd_def str_ab_def block_at_def)
  have a: "op_times str_ab 3 heap_ab_cd
     = Inr (\<lparr>data = Ptr 2 0, length_s = 6\<rparr>, heap_ab_cd @ [Live (map Some ''ababab'')])"
    using op_times_spec[OF h, of 3]
    by (auto simp: size_s_def str_ab_def heap_ab_cd_def numeral_3_eq_3)
  have b: "op_times str_ab 0 heap_ab_cd = Inr (String_default, heap_ab_cd)"
    using op_times_spec[OF h, of 0] by simp
  have c: "op_times str_ab (- 2) heap_ab_cd = Inr (String_default, heap_ab_cd)"
    using op_times_spec[OF h, of "- 2"] by simp
  show ?thesis
    using h a b c by simp
qed

text \<open>
  C5 as the specification states it fails when the product leaves the range of
  \<open>size_t\<close>. For a string of \<open>2 ^ 34\<close> elements and \<open>times = 2 ^ 30\<close> the product is
  \<open>2 ^ 64\<close>, which is 0 in \<open>size_t\<close>: the result array has no elements, and the first
  assignment of the loop writes outside it.
\<close>

theorem op_times_overflow_counterexample:
  "holds heap_big str_big (replicate 17179869184 (CHR ''x'')) \<and>
   (0 :: int) < 1073741824 \<and>
   op_times str_big 1073741824 heap_big = Inl Undefined"
  by (simp add: holds_def heap_big_def str_big_def block_at_def op_times_def new_array_def
      for_loop.simps read_elem_def write_elem_def)

end
